theory Spec2Isabelle
  imports Main "HOL-Library.Multiset"
begin

section \<open>Errors\<close>

text \<open>
  The exceptions the program can raise, as values.  A validator of the source raises
  \<^verbatim>\<open>ValueError(msg)\<close>; the model base class collects these per field and raises one
  \<^verbatim>\<open>ValidationError\<close> carrying the list of (field name, message) pairs.
  \<^verbatim>\<open>list.remove\<close> raises \<^verbatim>\<open>ValueError\<close> when the element is absent, and an
  assignment to a field of a frozen model raises an immutability error.
\<close>

datatype error =
    ValidationError "(string \<times> string) list"
  | ValueError string
  | ImmutabilityError string

section \<open>Formatting integers\<close>

text \<open>The decimal text an f-string produces for an integer.\<close>

definition digit_char :: "nat \<Rightarrow> char" where
  "digit_char d = ''0123456789'' ! d"

function str_nat :: "nat \<Rightarrow> string" where
  "str_nat n = (if n < 10 then [digit_char n] else str_nat (n div 10) @ [digit_char (n mod 10)])"
  by pat_completeness auto
termination
  by (relation "measure id") auto

declare str_nat.simps [simp del]

definition str_int :: "int \<Rightarrow> string" where
  "str_int i = (if i < 0 then CHR ''-'' # str_nat (nat (- i)) else str_nat (nat i))"

section \<open>Data model\<close>

record Product =
  product_number :: int
  price :: int

record OrderLine =
  product :: Product
  product_count :: int

record Order =
  order_lines :: "OrderLine list"
  overall_price :: int

section \<open>Field validators\<close>

text \<open>
  Each validator returns the value (\<open>Inr\<close>) or raises \<^verbatim>\<open>ValueError\<close> with a message
  (\<open>Inl\<close>).  The bounds are the local constants of the source.
\<close>

definition product_number_min :: int where
  "product_number_min = 0"

definition product_number_max :: int where
  "product_number_max = 999999"

definition price_min :: int where
  "price_min = 1"

definition validate_product_number :: "int \<Rightarrow> string + int" where
  "validate_product_number v =
     (if v < product_number_min \<or> v > product_number_max
      then Inl (''product_number is '' @ str_int v @ '' but must be between ''
                @ str_int product_number_min @ '' and '' @ str_int product_number_max @ ''.'')
      else Inr v)"

definition validate_price :: "int \<Rightarrow> string + int" where
  "validate_price v =
     (if v < price_min
      then Inl (''price is '' @ str_int v @ '' but must be at least '' @ str_int price_min @ ''.'')
      else Inr v)"

definition validate_product_count :: "int \<Rightarrow> string + int" where
  "validate_product_count v =
     (if v \<le> 0
      then Inl (''product_count is '' @ str_int v @ '' but must be greater than 0.'')
      else Inr v)"

section \<open>Construction\<close>

text \<open>
  Construction runs the validator of every field, in declaration order, collects the
  failures and either raises one \<^verbatim>\<open>ValidationError\<close> or returns the complete instance.
\<close>

fun field_error :: "string \<Rightarrow> string + int \<Rightarrow> (string \<times> string) list" where
  "field_error name (Inl msg) = [(name, msg)]"
| "field_error name (Inr v) = []"

definition Product_new :: "int \<Rightarrow> int \<Rightarrow> error + Product" where
  "Product_new pn pr =
     (case (validate_product_number pn, validate_price pr) of
        (Inr a, Inr b) \<Rightarrow> Inr \<lparr>product_number = a, price = b\<rparr>
      | (r1, r2) \<Rightarrow>
          Inl (ValidationError (field_error ''product_number'' r1 @ field_error ''price'' r2)))"

definition OrderLine_new :: "Product \<Rightarrow> int \<Rightarrow> error + OrderLine" where
  "OrderLine_new p c =
     (case validate_product_count c of
        Inr v \<Rightarrow> Inr \<lparr>product = p, product_count = v\<rparr>
      | r \<Rightarrow> Inl (ValidationError (field_error ''product_count'' r)))"

definition Order_new :: Order where
  "Order_new = \<lparr>order_lines = [], overall_price = 0\<rparr>"

section \<open>The aggregate root\<close>

text \<open>
  \<^verbatim>\<open>list.remove(x)\<close> deletes the first element equal to \<open>x\<close> and raises when there is
  none.  Equality of model instances compares all fields, as equality of records does.
\<close>

definition list_remove :: "'a \<Rightarrow> 'a list \<Rightarrow> error + 'a list" where
  "list_remove x xs =
     (if x \<in> set xs then Inr (remove1 x xs)
      else Inl (ValueError ''list.remove(x): x not in list''))"

text \<open>
  The \<^verbatim>\<open>for\<close> loop of \<^verbatim>\<open>add_order_line\<close>: the third argument is the part of
  \<^verbatim>\<open>self.order_lines\<close> still to be visited, the second the aggregate itself.  The
  loop body returns at the first entry with the same product number; the empty list is
  the code after the loop.
\<close>

fun add_order_line_loop :: "OrderLine \<Rightarrow> Order \<Rightarrow> OrderLine list \<Rightarrow> error + Order" where
  "add_order_line_loop order_line self [] =
     Inr (self\<lparr>order_lines := order_lines self @ [order_line],
               overall_price := overall_price self
                  + product_count order_line * price (product order_line)\<rparr>)"
| "add_order_line_loop order_line self (existing_order_line # rest) =
     (if product_number (product order_line) = product_number (product existing_order_line)
      then
        (case Product_new (product_number (product existing_order_line))
                          (price (product existing_order_line)) of
           Inl e \<Rightarrow> Inl e
         | Inr p \<Rightarrow>
            (case OrderLine_new p (product_count existing_order_line + product_count order_line) of
               Inl e \<Rightarrow> Inl e
             | Inr merged \<Rightarrow>
                (case list_remove existing_order_line (order_lines self @ [merged]) of
                   Inl e \<Rightarrow> Inl e
                 | Inr ls \<Rightarrow>
                     Inr (self\<lparr>order_lines := ls,
                               overall_price := overall_price self
                                  + product_count order_line * price (product order_line)\<rparr>))))
      else add_order_line_loop order_line self rest)"

definition add_order_line :: "OrderLine \<Rightarrow> Order \<Rightarrow> error + Order" where
  "add_order_line order_line self = add_order_line_loop order_line self (order_lines self)"

fun remove_order_line_loop :: "int \<Rightarrow> Order \<Rightarrow> OrderLine list \<Rightarrow> error + Order" where
  "remove_order_line_loop n self [] = Inr self"
| "remove_order_line_loop n self (existing_order_line # rest) =
     (if n = product_number (product existing_order_line)
      then
        (case list_remove existing_order_line (order_lines self) of
           Inl e \<Rightarrow> Inl e
         | Inr ls \<Rightarrow>
             Inr (self\<lparr>order_lines := ls,
                       overall_price := overall_price self
                          - product_count existing_order_line
                            * price (product existing_order_line)\<rparr>))
      else remove_order_line_loop n self rest)"

definition remove_order_line :: "int \<Rightarrow> Order \<Rightarrow> error + Order" where
  "remove_order_line n self = remove_order_line_loop n self (order_lines self)"

section \<open>Sequences of calls\<close>

datatype call = Add OrderLine | Remove int

fun do_call :: "call \<Rightarrow> Order \<Rightarrow> error + Order" where
  "do_call (Add ol) s = add_order_line ol s"
| "do_call (Remove n) s = remove_order_line n s"

text \<open>Running a sequence of calls stops at the first exception.\<close>

fun run :: "call list \<Rightarrow> Order \<Rightarrow> error + Order" where
  "run [] s = Inr s"
| "run (c # cs) s = (case do_call c s of Inl e \<Rightarrow> Inl e | Inr s' \<Rightarrow> run cs s')"

text \<open>
  An order line as the two constructors return it: its product passes
  \<open>Product_new\<close> and the line passes \<open>OrderLine_new\<close>, with no field changed since.
\<close>

definition constructed :: "OrderLine \<Rightarrow> bool" where
  "constructed ol \<longleftrightarrow>
     Product_new (product_number (product ol)) (price (product ol)) = Inr (product ol)
     \<and> OrderLine_new (product ol) (product_count ol) = Inr ol"

fun valid_call :: "call \<Rightarrow> bool" where
  "valid_call (Add ol) = constructed ol"
| "valid_call (Remove n) = True"

text \<open>The sum the total is meant to equal, and the product numbers of the lines.\<close>

definition line_total :: "OrderLine \<Rightarrow> int" where
  "line_total ol = product_count ol * price (product ol)"

definition lines_sum :: "OrderLine list \<Rightarrow> int" where
  "lines_sum ls = sum_list (map line_total ls)"

definition line_number :: "OrderLine \<Rightarrow> int" where
  "line_number ol = product_number (product ol)"

definition mk_line :: "int \<Rightarrow> int \<Rightarrow> int \<Rightarrow> OrderLine" where
  "mk_line n p c = \<lparr>product = \<lparr>product_number = n, price = p\<rparr>, product_count = c\<rparr>"

definition existing_count :: "int \<Rightarrow> OrderLine list \<Rightarrow> int" where
  "existing_count n ls =
     (case find (\<lambda>x. line_number x = n) ls of None \<Rightarrow> 0 | Some e \<Rightarrow> product_count e)"

section \<open>Equality of products\<close>

text \<open>
  Class \<^verbatim>\<open>Product\<close> declares two fields and two validators and no \<^verbatim>\<open>__eq__\<close>, and
  neither do \<^verbatim>\<open>Entity\<close> and its base.  Two instances are therefore compared as the
  model base class compares them: by the dictionaries of all their fields.
\<close>

definition Product_dict :: "Product \<Rightarrow> (string \<times> int) list" where
  "Product_dict p = [(''product_number'', product_number p), (''price'', price p)]"

definition Product_eq :: "Product \<Rightarrow> Product \<Rightarrow> bool" where
  "Product_eq a b \<longleftrightarrow> Product_dict a = Product_dict b"

section \<open>Assignment to fields\<close>

text \<open>
  The configuration classes of the source: \<^verbatim>\<open>ValueObject\<close> sets \<^verbatim>\<open>frozen = True\<close>,
  \<^verbatim>\<open>Entity\<close> declares no configuration and keeps the default.  \<^verbatim>\<open>OrderLine\<close> derives
  from \<^verbatim>\<open>ValueObject\<close>, \<^verbatim>\<open>Product\<close> from \<^verbatim>\<open>Entity\<close>.
\<close>

record Config =
  frozen :: bool

definition BaseModel_Config :: Config where
  "BaseModel_Config = \<lparr>frozen = False\<rparr>"

definition ValueObject_Config :: Config where
  "ValueObject_Config = \<lparr>frozen = True\<rparr>"

definition Entity_Config :: Config where
  "Entity_Config = BaseModel_Config"

definition OrderLine_Config :: Config where
  "OrderLine_Config = ValueObject_Config"

definition Product_Config :: Config where
  "Product_Config = Entity_Config"

text \<open>
  Modelled from the spec: the attribute assignment of the model base class, which is
  library code and not part of the sources.  The spec (4.2, 7) says that reassigning a
  field of a constructed value object fails with an immutability error and leaves its
  observable state as it was, and (3, 6) that the price of a product may be changed after
  construction.  The function returns the exception raised, if any, and the object as it
  is afterwards.
\<close>

definition model_setattr ::
    "Config \<Rightarrow> string \<Rightarrow> ('m \<Rightarrow> 'm) \<Rightarrow> 'm \<Rightarrow> error option \<times> 'm" where
  "model_setattr cfg cls upd self =
     (if frozen cfg
      then (Some (ImmutabilityError (cls @ '' is immutable and does not support item assignment'')),
            self)
      else (None, upd self))"

definition OrderLine_set_product_count :: "int \<Rightarrow> OrderLine \<Rightarrow> error option \<times> OrderLine" where
  "OrderLine_set_product_count v =
     model_setattr OrderLine_Config ''OrderLine'' (\<lambda>ol. ol\<lparr>product_count := v\<rparr>)"

definition OrderLine_set_product :: "Product \<Rightarrow> OrderLine \<Rightarrow> error option \<times> OrderLine" where
  "OrderLine_set_product p =
     model_setattr OrderLine_Config ''OrderLine'' (\<lambda>ol. ol\<lparr>product := p\<rparr>)"

definition Product_set_price :: "int \<Rightarrow> Product \<Rightarrow> error option \<times> Product" where
  "Product_set_price v =
     model_setattr Product_Config ''Product'' (\<lambda>p. p\<lparr>price := v\<rparr>)"

section \<open>Properties of the constructors\<close>

lemma Product_new_Inr_iff:
  "Product_new pn pr = Inr p \<longleftrightarrow>
     0 \<le> pn \<and> pn \<le> 999999 \<and> 1 \<le> pr \<and> p = \<lparr>product_number = pn, price = pr\<rparr>"
  by (auto simp: Product_new_def validate_product_number_def validate_price_def
        product_number_min_def product_number_max_def price_min_def)

lemma OrderLine_new_Inr_iff:
  "OrderLine_new p c = Inr ol \<longleftrightarrow> 1 \<le> c \<and> ol = \<lparr>product = p, product_count = c\<rparr>"
  by (auto simp: OrderLine_new_def validate_product_count_def)

lemma constructed_iff:
  "constructed ol \<longleftrightarrow>
     0 \<le> product_number (product ol) \<and> product_number (product ol) \<le> 999999
     \<and> 1 \<le> price (product ol) \<and> 1 \<le> product_count ol"
  by (auto simp: constructed_def Product_new_Inr_iff OrderLine_new_Inr_iff)

lemma constructed_mk_line:
  "constructed (mk_line n p c) \<longleftrightarrow> 0 \<le> n \<and> n \<le> 999999 \<and> 1 \<le> p \<and> 1 \<le> c"
  by (simp add: constructed_iff mk_line_def)

lemma Product_new_of_constructed:
  "constructed e \<Longrightarrow> Product_new (product_number (product e)) (price (product e)) = Inr (product e)"
  by (simp add: constructed_def)

lemma OrderLine_new_merged:
  "constructed e \<Longrightarrow> 1 \<le> k \<Longrightarrow>
   OrderLine_new (product e) (product_count e + k)
     = Inr (mk_line (line_number e) (price (product e)) (product_count e + k))"
  by (simp add: constructed_iff OrderLine_new_Inr_iff mk_line_def line_number_def)

section \<open>Properties of the two loops\<close>

lemma list_remove_member:
  "x \<in> set xs \<Longrightarrow> list_remove x (xs @ ys) = Inr (remove1 x xs @ ys)"
  by (simp add: list_remove_def remove1_append)

lemma add_loop_absent:
  "\<forall>e \<in> set xs. line_number e \<noteq> line_number ol \<Longrightarrow>
   add_order_line_loop ol s xs
     = Inr (s\<lparr>order_lines := order_lines s @ [ol],
              overall_price := overall_price s + line_total ol\<rparr>)"
  by (induction xs) (auto simp: line_number_def line_total_def)

lemma add_loop_present:
  assumes "find (\<lambda>x. line_number x = line_number ol) xs = Some e"
    and "set xs \<subseteq> set (order_lines s)"
    and "constructed e" and "1 \<le> product_count ol"
  shows "add_order_line_loop ol s xs
     = Inr (s\<lparr>order_lines := remove1 e (order_lines s)
                  @ [mk_line (line_number e) (price (product e))
                       (product_count e + product_count ol)],
              overall_price := overall_price s + line_total ol\<rparr>)"
  using assms
proof (induction xs)
  case Nil
  then show ?case by simp
next
  case (Cons x xs)
  show ?case
  proof (cases "line_number x = line_number ol")
    case True
    with Cons.prems have xe: "x = e" by simp
    have mem: "e \<in> set (order_lines s)" using Cons.prems xe by auto
    have same: "product_number (product ol) = product_number (product e)"
      using True xe by (simp add: line_number_def)
    show ?thesis
      using same Cons.prems(3,4) mem
      by (simp add: xe Product_new_of_constructed OrderLine_new_merged
            list_remove_member line_total_def)
  next
    case False
    then have "product_number (product ol) \<noteq> product_number (product x)"
      by (auto simp: line_number_def)
    moreover have "find (\<lambda>x. line_number x = line_number ol) xs = Some e"
      using Cons.prems(1) False by simp
    ultimately show ?thesis
      using Cons.IH Cons.prems by simp
  qed
qed

lemma remove_loop_absent:
  "\<forall>e \<in> set xs. line_number e \<noteq> n \<Longrightarrow> remove_order_line_loop n s xs = Inr s"
  by (induction xs) (auto simp: line_number_def)

lemma remove_loop_present:
  assumes "find (\<lambda>x. line_number x = n) xs = Some e"
    and "set xs \<subseteq> set (order_lines s)"
  shows "remove_order_line_loop n s xs
     = Inr (s\<lparr>order_lines := remove1 e (order_lines s),
              overall_price := overall_price s - line_total e\<rparr>)"
  using assms
proof (induction xs)
  case Nil
  then show ?case by simp
next
  case (Cons x xs)
  show ?case
  proof (cases "line_number x = n")
    case True
    with Cons.prems have xe: "x = e" by simp
    have mem: "e \<in> set (order_lines s)" using Cons.prems xe by auto
    show ?thesis
      using True mem by (simp add: xe line_number_def list_remove_def line_total_def)
  next
    case False
    then have "n \<noteq> product_number (product x)"
      by (auto simp: line_number_def)
    moreover have "find (\<lambda>x. line_number x = n) xs = Some e"
      using Cons.prems(1) False by simp
    ultimately show ?thesis
      using Cons.IH Cons.prems by simp
  qed
qed

section \<open>Properties of lists of order lines\<close>

lemma distinct_numbers_remove1:
  "distinct (map line_number ls) \<Longrightarrow> e \<in> set ls \<Longrightarrow>
   line_number e \<notin> line_number ` set (remove1 e ls)"
  by (induction ls) (auto simp: image_iff)
  
lemma distinct_numbers_remove1_keep:
  "distinct (map line_number ls) \<Longrightarrow> distinct (map line_number (remove1 e ls))"
  by (induction ls) (auto dest: notin_set_remove1 simp: image_iff)

lemma find_line_Some:
  "find (\<lambda>x. line_number x = n) ls = Some e \<Longrightarrow> e \<in> set ls \<and> line_number e = n"
  by (auto simp: find_Some_iff)

lemma find_line_None:
  "find (\<lambda>x. line_number x = n) ls = None \<longleftrightarrow> n \<notin> line_number ` set ls"
  by (auto simp: find_None_iff)

lemma filter_other_remove1:
  "line_number e = n \<Longrightarrow>
   filter (\<lambda>l. line_number l \<noteq> n) (remove1 e ls) = filter (\<lambda>l. line_number l \<noteq> n) ls"
  by (induction ls) auto

lemma filter_same_remove1:
  "distinct (map line_number ls) \<Longrightarrow> e \<in> set ls \<Longrightarrow>
   filter (\<lambda>l. line_number l = line_number e) (remove1 e ls) = []"
proof -
  assume d: "distinct (map line_number ls)" and m: "e \<in> set ls"
  have "\<forall>x \<in> set (remove1 e ls). line_number x \<noteq> line_number e"
  proof
    fix x assume "x \<in> set (remove1 e ls)"
    then have "line_number x \<in> line_number ` set (remove1 e ls)" by (rule imageI)
    with distinct_numbers_remove1 [OF d m] show "line_number x \<noteq> line_number e"
      by metis
  qed
  then show ?thesis by (simp add: filter_empty_conv)
qed

lemma lines_sum_remove1:
  "e \<in> set ls \<Longrightarrow> lines_sum (remove1 e ls) = lines_sum ls - line_total e"
  by (induction ls) (auto simp: lines_sum_def)

lemma lines_sum_append: "lines_sum (xs @ ys) = lines_sum xs + lines_sum ys"
  by (simp add: lines_sum_def)

section \<open>The documented scenario\<close>

text \<open>
  Claim C8.  Starting from an empty order, adding a line (product number 123456, price 100,
  count 1) and then a line (654321, 200, 2) gives the total 500; adding a further line
  (654321, 200, 1) gives exactly one line for product 654321, with count 3, and the total
  700; removing product 123456 then gives the total 600 with one remaining line.  Each
  of the three lines added is one the constructors accept.
\<close>

theorem scenario_totals:
  "constructed (mk_line 123456 100 1) \<and> constructed (mk_line 654321 200 2)
   \<and> constructed (mk_line 654321 200 1)
   \<and> run [Add (mk_line 123456 100 1), Add (mk_line 654321 200 2)] Order_new
       = Inr \<lparr>order_lines = [mk_line 123456 100 1, mk_line 654321 200 2],
              overall_price = 500\<rparr>
   \<and> run [Add (mk_line 123456 100 1), Add (mk_line 654321 200 2),
            Add (mk_line 654321 200 1)] Order_new
       = Inr \<lparr>order_lines = [mk_line 123456 100 1, mk_line 654321 200 3],
              overall_price = 700\<rparr>
   \<and> filter (\<lambda>l. line_number l = 654321) [mk_line 123456 100 1, mk_line 654321 200 3]
       = [mk_line 654321 200 3]
   \<and> run [Add (mk_line 123456 100 1), Add (mk_line 654321 200 2),
            Add (mk_line 654321 200 1), Remove 123456] Order_new
       = Inr \<lparr>order_lines = [mk_line 654321 200 3], overall_price = 600\<rparr>"
  by code_simp

section \<open>Removing a line\<close>

text \<open>
  Claim C6.  For every order and every product number \<open>n\<close>: if the order has a line
  for \<open>n\<close> (\<open>e\<close> is the first one the scan meets), \<open>remove_order_line n\<close> removes that
  line and lowers the total by exactly its count times its price, and where the product
  numbers of the lines are distinct no line for \<open>n\<close> is left; if the order has no line
  for \<open>n\<close>, the call returns without an exception and the order is exactly as before.
\<close>

theorem remove_order_line_effect:
  "(find (\<lambda>x. line_number x = n) (order_lines s) = Some e \<longrightarrow>
      remove_order_line n s
        = Inr (s\<lparr>order_lines := remove1 e (order_lines s),
                 overall_price := overall_price s - product_count e * price (product e)\<rparr>)
      \<and> (distinct (map line_number (order_lines s)) \<longrightarrow>
           n \<notin> line_number ` set (remove1 e (order_lines s))))
   \<and> (find (\<lambda>x. line_number x = n) (order_lines s) = None \<longrightarrow>
      remove_order_line n s = Inr s)"
proof (intro conjI impI)
  assume f: "find (\<lambda>x. line_number x = n) (order_lines s) = Some e"
  show "remove_order_line n s
        = Inr (s\<lparr>order_lines := remove1 e (order_lines s),
                 overall_price := overall_price s - product_count e * price (product e)\<rparr>)"
    using remove_loop_present [OF f] by (simp add: remove_order_line_def line_total_def)
  assume d: "distinct (map line_number (order_lines s))"
  from f have mem: "e \<in> set (order_lines s)" and ne: "line_number e = n"
    by (auto dest: find_line_Some)
  show "n \<notin> line_number ` set (remove1 e (order_lines s))"
    using distinct_numbers_remove1 [OF d mem] ne by simp
next
  assume "find (\<lambda>x. line_number x = n) (order_lines s) = None"
  then have "\<forall>e \<in> set (order_lines s). line_number e \<noteq> n"
    by (auto simp: find_None_iff)
  then show "remove_order_line n s = Inr s"
    by (simp add: remove_order_line_def remove_loop_absent)
qed

theorem remove_order_line_effect_witness:
  "remove_order_line 7 \<lparr>order_lines = [mk_line 3 10 2, mk_line 7 5 4], overall_price = 40\<rparr>
     = Inr \<lparr>order_lines = [mk_line 3 10 2], overall_price = 20\<rparr>
   \<and> 7 \<notin> line_number ` set [mk_line 3 10 2]
   \<and> remove_order_line 8 \<lparr>order_lines = [mk_line 3 10 2, mk_line 7 5 4], overall_price = 40\<rparr>
     = Inr \<lparr>order_lines = [mk_line 3 10 2, mk_line 7 5 4], overall_price = 40\<rparr>"
proof -
  let ?s = "\<lparr>order_lines = [mk_line 3 10 2, mk_line 7 5 4], overall_price = 40\<rparr>"
  have f: "find (\<lambda>x. line_number x = 7) (order_lines ?s) = Some (mk_line 7 5 4)"
    by (simp add: line_number_def mk_line_def)
  have d: "distinct (map line_number (order_lines ?s))"
    by (simp add: line_number_def mk_line_def)
  have g: "find (\<lambda>x. line_number x = 8) (order_lines ?s) = None"
    by (simp add: line_number_def mk_line_def)
  from remove_order_line_effect [of 7 ?s "mk_line 7 5 4"] f d
    remove_order_line_effect [of 8 ?s "mk_line 7 5 4"] g
  show ?thesis by (simp add: mk_line_def)
qed

section \<open>Merging into an existing line\<close>

text \<open>
  Claim C3.  Let the order hold a line \<open>e\<close> for product number \<open>n\<close> with count \<open>c\<close>
  and price \<open>p\<close>, and let a line for the same product number with price \<open>q\<close> and count
  \<open>k\<close> be added (both lines as the constructors return them).  Then the call succeeds,
  the entry \<open>e\<close> is replaced by a line for \<open>n\<close> with the existing price \<open>p\<close> and count
  \<open>c + k\<close>, and the total grows by exactly \<open>k * q\<close>: the added line's count times the
  added line's price.
\<close>

theorem add_order_line_merge:
  assumes "find (\<lambda>x. line_number x = n) (order_lines s) = Some e"
    and "price (product e) = p" and "product_count e = c"
    and "constructed e" and "constructed ol"
    and "product_number (product ol) = n" and "price (product ol) = q"
    and "product_count ol = k"
  shows "add_order_line ol s
     = Inr (s\<lparr>order_lines := remove1 e (order_lines s) @ [mk_line n p (c + k)],
              overall_price := overall_price s + k * q\<rparr>)"
proof -
  have n: "line_number ol = n" using assms(6) by (simp add: line_number_def)
  have en: "line_number e = n" using assms(1) by (auto dest: find_line_Some)
  have k: "1 \<le> product_count ol" using assms(5) by (simp add: constructed_iff)
  have "find (\<lambda>x. line_number x = line_number ol) (order_lines s) = Some e"
    using assms(1) n by simp
  from add_loop_present [OF this subset_refl assms(4) k]
  show ?thesis
    using assms(2,3,7,8) en by (simp add: add_order_line_def line_total_def)
qed

theorem add_order_line_merge_witness:
  "add_order_line (mk_line 7 9 3)
      \<lparr>order_lines = [mk_line 3 10 2, mk_line 7 5 4], overall_price = 40\<rparr>
     = Inr \<lparr>order_lines = [mk_line 3 10 2, mk_line 7 5 7], overall_price = 67\<rparr>"
proof -
  let ?s = "\<lparr>order_lines = [mk_line 3 10 2, mk_line 7 5 4], overall_price = 40\<rparr>"
  have f: "find (\<lambda>x. line_number x = 7) (order_lines ?s) = Some (mk_line 7 5 4)"
    by (simp add: line_number_def mk_line_def)
  have c1: "constructed (mk_line 7 5 4)" and c2: "constructed (mk_line 7 9 3)"
    by (simp_all add: constructed_mk_line)
  from add_order_line_merge [OF f _ _ c1 c2, of 5 4 9 3]
  show ?thesis by (simp add: mk_line_def)
qed

section \<open>The invariant of the aggregate\<close>

lemma constructed_merged:
  "constructed e \<Longrightarrow> constructed ol \<Longrightarrow>
   constructed (mk_line (line_number e) (price (product e)) (product_count e + product_count ol))"
  by (simp add: constructed_mk_line) (simp add: constructed_iff line_number_def)

lemma line_number_mk_line [simp]: "line_number (mk_line n p c) = n"
  by (simp add: line_number_def mk_line_def)

lemma add_order_line_keeps_invariant:
  assumes ol: "constructed ol"
    and all: "list_all constructed (order_lines s)"
    and dist: "distinct (map line_number (order_lines s))"
  shows "\<exists>s'. add_order_line ol s = Inr s'
           \<and> list_all constructed (order_lines s')
           \<and> distinct (map line_number (order_lines s'))"
proof (cases "find (\<lambda>x. line_number x = line_number ol) (order_lines s)")
  case None
  then have absent: "\<forall>e \<in> set (order_lines s). line_number e \<noteq> line_number ol"
    by (auto simp: find_None_iff)
  then have "line_number ol \<notin> line_number ` set (order_lines s)"
    by (auto simp: image_iff)
  with add_loop_absent [OF absent, of s] ol all dist show ?thesis
    by (simp add: add_order_line_def)
next
  case (Some e)
  then have mem: "e \<in> set (order_lines s)" and en: "line_number e = line_number ol"
    by (auto dest: find_line_Some)
  have ce: "constructed e" using all mem by (simp add: list_all_iff)
  have k: "1 \<le> product_count ol" using ol by (simp add: constructed_iff)
  have rest: "list_all constructed (remove1 e (order_lines s))"
    using all by (auto simp: list_all_iff dest: notin_set_remove1)
  from add_loop_present [OF Some subset_refl ce k]
  show ?thesis
    using constructed_merged [OF ce ol] rest distinct_numbers_remove1 [OF dist mem]
      distinct_numbers_remove1_keep [OF dist, of e]
    by (simp add: add_order_line_def)
qed

lemma remove_order_line_keeps_invariant:
  "\<exists>s'. remove_order_line n s = Inr s'
     \<and> (list_all constructed (order_lines s) \<longrightarrow> list_all constructed (order_lines s'))
     \<and> (distinct (map line_number (order_lines s))
          \<longrightarrow> distinct (map line_number (order_lines s')))"
proof (cases "find (\<lambda>x. line_number x = n) (order_lines s)")
  case None
  then have "\<forall>e \<in> set (order_lines s). line_number e \<noteq> n"
    by (auto simp: find_None_iff)
  then show ?thesis
    by (simp add: remove_order_line_def remove_loop_absent)
next
  case (Some e)
  from remove_loop_present [OF Some subset_refl]
  show ?thesis
    by (auto simp: remove_order_line_def list_all_iff distinct_numbers_remove1_keep
          dest: notin_set_remove1)
qed

lemma run_keeps_invariant:
  "list_all valid_call cs \<Longrightarrow> list_all constructed (order_lines s) \<Longrightarrow>
   distinct (map line_number (order_lines s)) \<Longrightarrow>
   \<exists>s'. run cs s = Inr s' \<and> list_all constructed (order_lines s')
     \<and> distinct (map line_number (order_lines s'))"
proof (induction cs arbitrary: s)
  case Nil
  then show ?case by simp
next
  case (Cons c cs)
  have "\<exists>s1. do_call c s = Inr s1 \<and> list_all constructed (order_lines s1)
          \<and> distinct (map line_number (order_lines s1))"
  proof (cases c)
    case (Add ol)
    with Cons.prems show ?thesis
      using add_order_line_keeps_invariant [of ol s] by simp
  next
    case (Remove n)
    with Cons.prems show ?thesis
      using remove_order_line_keeps_invariant [of n s] by auto
  qed
  then obtain s1 where s1: "do_call c s = Inr s1" "list_all constructed (order_lines s1)"
    "distinct (map line_number (order_lines s1))" by blast
  from Cons.IH [OF _ s1(2,3)] Cons.prems(1) s1(1) show ?case by simp
qed

lemma run_from_empty:
  "list_all valid_call cs \<Longrightarrow>
   \<exists>s. run cs Order_new = Inr s \<and> list_all constructed (order_lines s)
     \<and> distinct (map line_number (order_lines s))"
  by (rule run_keeps_invariant) (simp_all add: Order_new_def)

lemma product_count_mk_line [simp]: "product_count (mk_line n p c) = c"
  by (simp add: mk_line_def)

lemma product_mk_line [simp]: "product (mk_line n p c) = \<lparr>product_number = n, price = p\<rparr>"
  by (simp add: mk_line_def)

lemma existing_count_filter:
  "existing_count n ls
     = (case filter (\<lambda>l. line_number l = n) ls of [] \<Rightarrow> 0 | x # _ \<Rightarrow> product_count x)"
  by (induction ls) (auto simp: existing_count_def)

lemma add_order_line_count:
  assumes ol: "constructed ol"
    and all: "list_all constructed (order_lines s)"
    and dist: "distinct (map line_number (order_lines s))"
  shows "\<exists>s' m. add_order_line ol s = Inr s'
           \<and> list_all constructed (order_lines s')
           \<and> distinct (map line_number (order_lines s'))
           \<and> filter (\<lambda>l. line_number l = line_number ol) (order_lines s') = [m]
           \<and> product_count m
               = existing_count (line_number ol) (order_lines s) + product_count ol"
proof -
  from add_order_line_keeps_invariant [OF ol all dist] obtain s' where
    s': "add_order_line ol s = Inr s'" "list_all constructed (order_lines s')"
    "distinct (map line_number (order_lines s'))" by blast
  let ?P = "\<lambda>l. line_number l = line_number ol"
  have "\<exists>m. filter ?P (order_lines s') = [m]
          \<and> product_count m
               = existing_count (line_number ol) (order_lines s) + product_count ol"
  proof (cases "find ?P (order_lines s)")
    case None
    then have absent: "\<forall>e \<in> set (order_lines s). line_number e \<noteq> line_number ol"
      by (auto simp: find_None_iff)
    then have f: "filter ?P (order_lines s) = []"
      by (simp add: filter_empty_conv)
    from add_loop_absent [OF absent, of s] s'(1)
    have "order_lines s' = order_lines s @ [ol]"
      by (auto simp: add_order_line_def)
    then show ?thesis using f None by (simp add: existing_count_def)
  next
    case (Some e)
    then have mem: "e \<in> set (order_lines s)" and en: "line_number e = line_number ol"
      by (auto dest: find_line_Some)
    have ce: "constructed e" using all mem by (simp add: list_all_iff)
    have k: "1 \<le> product_count ol" using ol by (simp add: constructed_iff)
    from add_loop_present [OF Some subset_refl ce k] s'(1)
    have "order_lines s' = remove1 e (order_lines s)
            @ [mk_line (line_number e) (price (product e)) (product_count e + product_count ol)]"
      by (auto simp: add_order_line_def)
    then show ?thesis
      using filter_same_remove1 [OF dist mem] en Some
      by (simp add: existing_count_def)
  qed
  with s' show ?thesis by blast
qed

section \<open>Mutations never raise\<close>

text \<open>
  Claim C7.  Every sequence of calls on an empty order, whose added lines are lines the
  constructors return, runs to its end without an exception; in the state \<open>s\<close> it
  reaches, \<open>add_order_line\<close> of any constructed line and \<open>remove_order_line\<close> of any
  product number return a new state; and for every line \<open>e\<close> of \<open>s\<close> the two
  constructions of the merge path, the product of \<open>e\<close> built again and a line with the
  sum of the two counts, pass validation.
\<close>

theorem mutations_never_raise:
  "list_all valid_call cs \<Longrightarrow>
   \<exists>s. run cs Order_new = Inr s
     \<and> (\<forall>ol. constructed ol \<longrightarrow> (\<exists>s'. add_order_line ol s = Inr s'))
     \<and> (\<forall>n. \<exists>s'. remove_order_line n s = Inr s')
     \<and> (\<forall>e ol. e \<in> set (order_lines s) \<longrightarrow> constructed ol \<longrightarrow>
           Product_new (product_number (product e)) (price (product e)) = Inr (product e)
           \<and> (\<exists>m. OrderLine_new (product e) (product_count e + product_count ol) = Inr m))"
proof -
  assume v: "list_all valid_call cs"
  from run_from_empty [OF v] obtain s where s: "run cs Order_new = Inr s"
    "list_all constructed (order_lines s)" "distinct (map line_number (order_lines s))"
    by blast
  have "\<forall>ol. constructed ol \<longrightarrow> (\<exists>s'. add_order_line ol s = Inr s')"
    using add_order_line_keeps_invariant [OF _ s(2,3)] by blast
  moreover have "\<forall>n. \<exists>s'. remove_order_line n s = Inr s'"
    using remove_order_line_keeps_invariant [of _ s] by blast
  moreover have "\<forall>e ol. e \<in> set (order_lines s) \<longrightarrow> constructed ol \<longrightarrow>
           Product_new (product_number (product e)) (price (product e)) = Inr (product e)
           \<and> (\<exists>m. OrderLine_new (product e) (product_count e + product_count ol) = Inr m)"
  proof (intro allI impI)
    fix e ol assume "e \<in> set (order_lines s)" and ol: "constructed ol"
    then have ce: "constructed e" using s(2) by (simp add: list_all_iff)
    have k: "1 \<le> product_count ol" using ol by (simp add: constructed_iff)
    show "Product_new (product_number (product e)) (price (product e)) = Inr (product e)
           \<and> (\<exists>m. OrderLine_new (product e) (product_count e + product_count ol) = Inr m)"
      using Product_new_of_constructed [OF ce] OrderLine_new_merged [OF ce k] by simp
  qed
  ultimately show ?thesis using s(1) by blast
qed

theorem mutations_never_raise_witness:
  "list_all valid_call [Add (mk_line 3 10 2), Remove 4]
   \<and> (\<exists>s. run [Add (mk_line 3 10 2), Remove 4] Order_new = Inr s
        \<and> (\<exists>s'. add_order_line (mk_line 3 7 1) s = Inr s')
        \<and> (\<exists>s'. remove_order_line 3 s = Inr s'))"
proof -
  have v: "list_all valid_call [Add (mk_line 3 10 2), Remove 4]"
    by (simp add: constructed_mk_line)
  have c: "constructed (mk_line 3 7 1)"
    by (simp add: constructed_mk_line)
  from mutations_never_raise [OF v] c v show ?thesis by blast
qed

section \<open>One line per product number\<close>

text \<open>
  Claim C2.  In every state \<open>s\<close> reached from the empty order by calls with constructed
  lines, the product numbers of the lines are pairwise distinct.  Adding two constructed
  lines \<open>a\<close> and \<open>b\<close> with the same product number to \<open>s\<close> succeeds and leaves exactly
  one line \<open>m\<close> for that number; its count is the count \<open>s\<close> already held for the number
  (0 when it held none) plus the two added counts, so it is the sum of the two added
  counts whenever \<open>s\<close> had no line for that product, the empty order included.
\<close>

theorem unique_product_numbers:
  assumes "list_all valid_call cs" and "constructed a" and "constructed b"
    and "line_number a = line_number b"
  shows "\<exists>s. run cs Order_new = Inr s
     \<and> distinct (map line_number (order_lines s))
     \<and> (\<exists>s2 m. run [Add a, Add b] s = Inr s2
          \<and> distinct (map line_number (order_lines s2))
          \<and> filter (\<lambda>l. line_number l = line_number a) (order_lines s2) = [m]
          \<and> product_count m
              = existing_count (line_number a) (order_lines s)
                + product_count a + product_count b
          \<and> (line_number a \<notin> line_number ` set (order_lines s) \<longrightarrow>
                product_count m = product_count a + product_count b))"
proof -
  from run_from_empty [OF assms(1)] obtain s where s: "run cs Order_new = Inr s"
    "list_all constructed (order_lines s)" "distinct (map line_number (order_lines s))"
    by blast
  from add_order_line_count [OF assms(2) s(2,3)] obtain s1 m1 where
    s1: "add_order_line a s = Inr s1" "list_all constructed (order_lines s1)"
      "distinct (map line_number (order_lines s1))"
      "filter (\<lambda>l. line_number l = line_number a) (order_lines s1) = [m1]"
      "product_count m1 = existing_count (line_number a) (order_lines s) + product_count a"
    by blast
  from add_order_line_count [OF assms(3) s1(2,3)] obtain s2 m where
    s2: "add_order_line b s1 = Inr s2"
      "distinct (map line_number (order_lines s2))"
      "filter (\<lambda>l. line_number l = line_number b) (order_lines s2) = [m]"
      "product_count m = existing_count (line_number b) (order_lines s1) + product_count b"
    by blast
  have e1: "existing_count (line_number b) (order_lines s1) = product_count m1"
    using s1(4) assms(4) by (simp add: existing_count_filter)
  have cnt: "product_count m
      = existing_count (line_number a) (order_lines s) + product_count a + product_count b"
    using s2(4) e1 s1(5) by simp
  have absent: "line_number a \<notin> line_number ` set (order_lines s) \<longrightarrow>
                product_count m = product_count a + product_count b"
  proof
    assume "line_number a \<notin> line_number ` set (order_lines s)"
    then have "find (\<lambda>x. line_number x = line_number a) (order_lines s) = None"
      by (simp add: find_line_None)
    then show "product_count m = product_count a + product_count b"
      using cnt by (simp add: existing_count_def)
  qed
  have r: "run [Add a, Add b] s = Inr s2" using s1(1) s2(1) by simp
  show ?thesis
    using s(1,3) r s2(2) s2(3) assms(4) cnt absent by auto
qed

theorem unique_product_numbers_witness:
  "list_all valid_call [Add (mk_line 3 10 2), Remove 4]
   \<and> constructed (mk_line 5 10 2) \<and> constructed (mk_line 5 20 4)
   \<and> (\<exists>s. run [Add (mk_line 3 10 2), Remove 4] Order_new = Inr s
     \<and> distinct (map line_number (order_lines s))
     \<and> 5 \<notin> line_number ` set (order_lines s)
     \<and> (\<exists>s2 m. run [Add (mk_line 5 10 2), Add (mk_line 5 20 4)] s = Inr s2
          \<and> filter (\<lambda>l. line_number l = 5) (order_lines s2) = [m]
          \<and> product_count m = 6))"
proof -
  have v: "list_all valid_call [Add (mk_line 3 10 2), Remove 4]"
    by (simp add: constructed_mk_line)
  have a: "constructed (mk_line 5 10 2)" and b: "constructed (mk_line 5 20 4)"
    by (simp_all add: constructed_mk_line)
  have n: "line_number (mk_line 5 10 2) = line_number (mk_line 5 20 4)" by simp
  have r: "run [Add (mk_line 3 10 2), Remove 4] Order_new
     = Inr \<lparr>order_lines = [mk_line 3 10 2], overall_price = 20\<rparr>"
    by code_simp
  from unique_product_numbers [OF v a b n] obtain s s2 m where
    h: "run [Add (mk_line 3 10 2), Remove 4] Order_new = Inr s"
      "distinct (map line_number (order_lines s))"
      "run [Add (mk_line 5 10 2), Add (mk_line 5 20 4)] s = Inr s2"
      "filter (\<lambda>l. line_number l = line_number (mk_line 5 10 2)) (order_lines s2) = [m]"
      "line_number (mk_line 5 10 2) \<notin> line_number ` set (order_lines s) \<longrightarrow>
         product_count m = product_count (mk_line 5 10 2) + product_count (mk_line 5 20 4)"
    by blast
  have s: "s = \<lparr>order_lines = [mk_line 3 10 2], overall_price = 20\<rparr>"
    using h(1) r by simp
  have absent: "5 \<notin> line_number ` set (order_lines s)"
    by (simp add: s)
  have six: "product_count m = 6"
    using h(5) absent by simp
  have one: "filter (\<lambda>l. line_number l = 5) (order_lines s2) = [m]"
    using h(4) by simp
  show ?thesis
    using v a b h(1,2,3) absent one six by blast
qed

section \<open>What a call leaves alone\<close>

lemma add_loop_result:
  "add_order_line_loop ol s xs = Inr s' \<Longrightarrow> set xs \<subseteq> set (order_lines s) \<Longrightarrow>
   order_lines s' = order_lines s @ [ol]
   \<or> (\<exists>e m. e \<in> set (order_lines s) \<and> line_number e = line_number ol
         \<and> line_number m = line_number ol
         \<and> order_lines s' = remove1 e (order_lines s) @ [m])"
proof (induction xs)
  case Nil
  then show ?case by auto
next
  case (Cons x xs)
  show ?case
  proof (cases "product_number (product ol) = product_number (product x)")
    case False
    with Cons show ?thesis by simp
  next
    case True
    have mem: "x \<in> set (order_lines s)" using Cons.prems(2) by simp
    from Cons.prems(1) True obtain p merged ls where
      p: "Product_new (product_number (product x)) (price (product x)) = Inr p"
      and m: "OrderLine_new p (product_count x + product_count ol) = Inr merged"
      and l: "list_remove x (order_lines s @ [merged]) = Inr ls"
      and s': "order_lines s' = ls"
      by (auto split: sum.splits)
    have "line_number merged = line_number ol"
      using p m True by (auto simp: Product_new_Inr_iff OrderLine_new_Inr_iff line_number_def)
    moreover have "ls = remove1 x (order_lines s) @ [merged]"
      using l mem by (simp add: list_remove_member)
    moreover have "line_number x = line_number ol"
      using True by (simp add: line_number_def)
    ultimately show ?thesis using mem s' by blast
  qed
qed

lemma remove_loop_result:
  "remove_order_line_loop n s xs = Inr s' \<Longrightarrow> set xs \<subseteq> set (order_lines s) \<Longrightarrow>
   order_lines s' = order_lines s
   \<or> (\<exists>e. e \<in> set (order_lines s) \<and> line_number e = n
         \<and> order_lines s' = remove1 e (order_lines s))"
proof (induction xs)
  case Nil
  then show ?case by auto
next
  case (Cons x xs)
  show ?case
  proof (cases "n = product_number (product x)")
    case False
    with Cons show ?thesis by simp
  next
    case True
    have mem: "x \<in> set (order_lines s)" using Cons.prems(2) by simp
    from Cons.prems(1) True mem have "order_lines s' = remove1 x (order_lines s)"
      by (auto simp: list_remove_def)
    moreover have "line_number x = n" using True by (simp add: line_number_def)
    ultimately show ?thesis using mem by blast
  qed
qed

lemma mset_remove1_diff:
  "size (mset ls - mset (remove1 e ls @ ys)) \<le> 1"
proof -
  have "mset ls - mset (remove1 e ls @ ys) \<subseteq># {#e#}"
    by (auto simp: subseteq_mset_def)
  from size_mset_mono [OF this] show ?thesis by simp
qed

text \<open>
  Claim C10.  For every order and every call that returns: after \<open>add_order_line\<close> of a
  line, and after \<open>remove_order_line n\<close>, the lines whose product number differs from the
  one added or removed are exactly the ones there were before, field for field and in the
  same relative order; and at most one of the entries there were before is missing from
  the list afterwards (the one replaced or removed).
\<close>

theorem other_lines_untouched:
  "(add_order_line ol s = Inr s' \<longrightarrow>
      filter (\<lambda>l. line_number l \<noteq> line_number ol) (order_lines s')
        = filter (\<lambda>l. line_number l \<noteq> line_number ol) (order_lines s)
      \<and> size (mset (order_lines s) - mset (order_lines s')) \<le> 1)
   \<and> (remove_order_line n s = Inr s' \<longrightarrow>
      filter (\<lambda>l. line_number l \<noteq> n) (order_lines s')
        = filter (\<lambda>l. line_number l \<noteq> n) (order_lines s)
      \<and> size (mset (order_lines s) - mset (order_lines s')) \<le> 1)"
proof (intro conjI impI)
  assume a: "add_order_line ol s = Inr s'"
  from add_loop_result [OF a [unfolded add_order_line_def] subset_refl]
  consider "order_lines s' = order_lines s @ [ol]"
    | e m where "line_number e = line_number ol" "line_number m = line_number ol"
        "order_lines s' = remove1 e (order_lines s) @ [m]"
    by blast
  then show "filter (\<lambda>l. line_number l \<noteq> line_number ol) (order_lines s')
        = filter (\<lambda>l. line_number l \<noteq> line_number ol) (order_lines s)"
    by cases (simp_all add: filter_other_remove1)
  from add_loop_result [OF a [unfolded add_order_line_def] subset_refl]
  consider "order_lines s' = order_lines s @ [ol]"
    | e m where "order_lines s' = remove1 e (order_lines s) @ [m]"
    by blast
  then show "size (mset (order_lines s) - mset (order_lines s')) \<le> 1"
  proof cases
    case 1
    then show ?thesis by simp
  next
    case (2 e m)
    show ?thesis unfolding 2 by (rule mset_remove1_diff)
  qed
next
  assume r: "remove_order_line n s = Inr s'"
  from remove_loop_result [OF r [unfolded remove_order_line_def] subset_refl]
  consider "order_lines s' = order_lines s"
    | e where "line_number e = n" "order_lines s' = remove1 e (order_lines s)"
    by blast
  then show "filter (\<lambda>l. line_number l \<noteq> n) (order_lines s')
        = filter (\<lambda>l. line_number l \<noteq> n) (order_lines s)"
    by cases (simp_all add: filter_other_remove1)
  from remove_loop_result [OF r [unfolded remove_order_line_def] subset_refl]
  consider "order_lines s' = order_lines s"
    | e where "order_lines s' = remove1 e (order_lines s)"
    by blast
  then show "size (mset (order_lines s) - mset (order_lines s')) \<le> 1"
  proof cases
    case 1
    then show ?thesis by simp
  next
    case (2 e)
    show ?thesis
      unfolding 2 using mset_remove1_diff [of "order_lines s" e "[]"]
      by (simp only: append_Nil2)
  qed
qed

theorem other_lines_untouched_witness:
  "add_order_line (mk_line 7 9 3)
       \<lparr>order_lines = [mk_line 3 10 2, mk_line 7 5 4], overall_price = 40\<rparr>
     = Inr \<lparr>order_lines = [mk_line 3 10 2, mk_line 7 5 7], overall_price = 67\<rparr>
   \<and> filter (\<lambda>l. line_number l \<noteq> line_number (mk_line 7 9 3))
        (order_lines \<lparr>order_lines = [mk_line 3 10 2, mk_line 7 5 7], overall_price = 67\<rparr>)
      = [mk_line 3 10 2]
   \<and> remove_order_line 7
       \<lparr>order_lines = [mk_line 3 10 2, mk_line 7 5 4], overall_price = 40\<rparr>
     = Inr \<lparr>order_lines = [mk_line 3 10 2], overall_price = 20\<rparr>
   \<and> filter (\<lambda>l. line_number l \<noteq> 7)
        (order_lines \<lparr>order_lines = [mk_line 3 10 2], overall_price = 20\<rparr>)
      = [mk_line 3 10 2]"
proof -
  let ?s = "\<lparr>order_lines = [mk_line 3 10 2, mk_line 7 5 4], overall_price = 40\<rparr>"
  let ?s1 = "\<lparr>order_lines = [mk_line 3 10 2, mk_line 7 5 7], overall_price = 67\<rparr>"
  let ?s2 = "\<lparr>order_lines = [mk_line 3 10 2], overall_price = 20\<rparr>"
  have a: "add_order_line (mk_line 7 9 3) ?s = Inr ?s1"
    by code_simp
  have r: "remove_order_line 7 ?s = Inr ?s2"
    by code_simp
  have before1: "filter (\<lambda>l. line_number l \<noteq> line_number (mk_line 7 9 3)) (order_lines ?s)
      = [mk_line 3 10 2]"
    by simp
  have before2: "filter (\<lambda>l. line_number l \<noteq> 7) (order_lines ?s) = [mk_line 3 10 2]"
    by simp
  from other_lines_untouched [of "mk_line 7 9 3" ?s ?s1 7] a
  have f1: "filter (\<lambda>l. line_number l \<noteq> line_number (mk_line 7 9 3)) (order_lines ?s1)
      = filter (\<lambda>l. line_number l \<noteq> line_number (mk_line 7 9 3)) (order_lines ?s)"
    by blast
  from other_lines_untouched [of "mk_line 7 9 3" ?s ?s2 7] r
  have f2: "filter (\<lambda>l. line_number l \<noteq> 7) (order_lines ?s2)
      = filter (\<lambda>l. line_number l \<noteq> 7) (order_lines ?s)"
    by blast
  show ?thesis
    using a r f1 [unfolded before1] f2 [unfolded before2] by (intro conjI)
qed

section \<open>The decimal text of an integer\<close>

text \<open>
  Different integers have different texts, so a message that spells a value identifies
  it.
\<close>

lemma digit_char_inj: "a < 10 \<Longrightarrow> b < 10 \<Longrightarrow> digit_char a = digit_char b \<Longrightarrow> a = b"
proof -
  assume a: "a < 10" and b: "b < 10" and e: "digit_char a = digit_char b"
  have d: "distinct ''0123456789''" by simp
  have l: "length ''0123456789'' = 10" by simp
  from e have "''0123456789'' ! a = ''0123456789'' ! b" by (simp add: digit_char_def)
  with nth_eq_iff_index_eq [OF d, of a b] a b l show "a = b" by simp
qed

lemma digit_char_digit: "d < 10 \<Longrightarrow> digit_char d \<in> set ''0123456789''"
  unfolding digit_char_def by (rule nth_mem) simp

lemma str_nat_nonempty: "str_nat n \<noteq> []"
  by (subst str_nat.simps) simp

lemma str_nat_digits: "set (str_nat n) \<subseteq> set ''0123456789''"
proof (induction n rule: str_nat.induct)
  case (1 n)
  show ?case
  proof (cases "n < 10")
    case True
    then show ?thesis
      using digit_char_digit [of n] by (subst str_nat.simps) simp
  next
    case False
    have "n mod 10 < 10" by simp
    then have "digit_char (n mod 10) \<in> set ''0123456789''" by (rule digit_char_digit)
    with 1 False show ?thesis
      by (subst str_nat.simps) simp
  qed
qed

lemma str_nat_inj: "str_nat n = str_nat m \<Longrightarrow> n = m"
proof (induction n arbitrary: m rule: str_nat.induct)
  case (1 n)
  have n: "str_nat n = (if n < 10 then [digit_char n]
             else str_nat (n div 10) @ [digit_char (n mod 10)])"
    by (rule str_nat.simps)
  have m: "str_nat m = (if m < 10 then [digit_char m]
             else str_nat (m div 10) @ [digit_char (m mod 10)])"
    by (rule str_nat.simps)
  show ?case
  proof (cases "n < 10")
    case True
    show ?thesis
    proof (cases "m < 10")
      case m10: True
      with True "1.prems" n m show ?thesis by (auto dest: digit_char_inj)
    next
      case False
      with True "1.prems" n m
      have "[digit_char n] = str_nat (m div 10) @ [digit_char (m mod 10)]" by simp
      then have "str_nat (m div 10) = []" by simp
      then show ?thesis by (simp add: str_nat_nonempty)
    qed
  next
    case False
    show ?thesis
    proof (cases "m < 10")
      case True
      with False "1.prems" n m have "str_nat (n div 10) @ [digit_char (n mod 10)] = [digit_char m]"
        by simp
      then show ?thesis by (simp add: str_nat_nonempty)
    next
      case m10: False
      with False "1.prems" n m
      have e: "str_nat (n div 10) = str_nat (m div 10)"
        and d: "digit_char (n mod 10) = digit_char (m mod 10)"
        by simp_all
      from "1.IH" [OF False e] have q: "n div 10 = m div 10" .
      have r: "n mod 10 = m mod 10" using d by (auto intro: digit_char_inj)
      have "n = 10 * (n div 10) + n mod 10" by simp
      also have "\<dots> = 10 * (m div 10) + m mod 10" using q r by simp
      also have "\<dots> = m" by simp
      finally show ?thesis .
    qed
  qed
qed

lemma str_int_inj: "str_int i = str_int j \<Longrightarrow> i = j"
proof -
  assume e: "str_int i = str_int j"
  have minus: "CHR ''-'' \<notin> set (str_nat n)" for n
    using str_nat_digits [of n] by auto
  have hd_pos: "str_nat n \<noteq> CHR ''-'' # xs" for n xs
    using minus [of n] by (metis list.set_intros(1))
  show "i = j"
  proof (cases "i < 0")
    case True
    show ?thesis
    proof (cases "j < 0")
      case j: True
      with True e have "str_nat (nat (- i)) = str_nat (nat (- j))" by (simp add: str_int_def)
      then have "nat (- i) = nat (- j)" by (rule str_nat_inj)
      with True j show ?thesis by simp
    next
      case False
      with True e hd_pos show ?thesis by (simp add: str_int_def) metis
    qed
  next
    case False
    show ?thesis
    proof (cases "j < 0")
      case True
      with False e hd_pos show ?thesis by (simp add: str_int_def)
    next
      case j: False
      with False e have "str_nat (nat i) = str_nat (nat j)" by (simp add: str_int_def)
      then have "nat i = nat j" by (rule str_nat_inj)
      with False j show ?thesis by simp
    qed
  qed
qed

section \<open>Construction and its errors\<close>

lemma str_int_0: "str_int 0 = ''0''"
  by (simp add: str_int_def str_nat.simps digit_char_def)

lemma str_int_1: "str_int 1 = ''1''"
  by (simp add: str_int_def str_nat.simps digit_char_def)

lemma str_int_999999: "str_int 999999 = ''999999''"
  by (simp add: str_int_def str_nat.simps digit_char_def)

lemma str_int_1000000: "str_int 1000000 = ''1000000''"
  by (simp add: str_int_def str_nat.simps digit_char_def)

text \<open>
  Claim C4.  \<open>Product_new\<close> returns a product exactly when the product number lies in
  0..999999 and the price is at least 1, and \<open>OrderLine_new\<close> (with a given product)
  returns a line exactly when the count is at least 1; a successful construction returns
  the instance with the fields given.  Every failing construction returns only a
  validation error, with one entry per offending field whose message spells the offending
  value and the allowed bound; no instance comes with it.
\<close>

theorem construction_validation:
  "((\<exists>a. Product_new pn pr = Inr a) \<longleftrightarrow> 0 \<le> pn \<and> pn \<le> 999999 \<and> 1 \<le> pr)
   \<and> (0 \<le> pn \<and> pn \<le> 999999 \<and> 1 \<le> pr \<longrightarrow>
        Product_new pn pr = Inr \<lparr>product_number = pn, price = pr\<rparr>)
   \<and> (\<not> (0 \<le> pn \<and> pn \<le> 999999 \<and> 1 \<le> pr) \<longrightarrow>
        Product_new pn pr = Inl (ValidationError
          ((if pn < 0 \<or> 999999 < pn
            then [(''product_number'',
                   ''product_number is '' @ str_int pn @ '' but must be between 0 and 999999.'')]
            else [])
           @ (if pr < 1
              then [(''price'', ''price is '' @ str_int pr @ '' but must be at least 1.'')]
              else []))))
   \<and> ((\<exists>ol. OrderLine_new p c = Inr ol) \<longleftrightarrow> 1 \<le> c)
   \<and> (1 \<le> c \<longrightarrow> OrderLine_new p c = Inr \<lparr>product = p, product_count = c\<rparr>)
   \<and> (\<not> 1 \<le> c \<longrightarrow>
        OrderLine_new p c = Inl (ValidationError
          [(''product_count'',
            ''product_count is '' @ str_int c @ '' but must be greater than 0.'')]))"
proof (intro conjI)
  show "(\<exists>a. Product_new pn pr = Inr a) \<longleftrightarrow> 0 \<le> pn \<and> pn \<le> 999999 \<and> 1 \<le> pr"
    by (simp add: Product_new_Inr_iff)
  show "0 \<le> pn \<and> pn \<le> 999999 \<and> 1 \<le> pr \<longrightarrow>
        Product_new pn pr = Inr \<lparr>product_number = pn, price = pr\<rparr>"
    by (simp add: Product_new_Inr_iff)
  show "\<not> (0 \<le> pn \<and> pn \<le> 999999 \<and> 1 \<le> pr) \<longrightarrow>
        Product_new pn pr = Inl (ValidationError
          ((if pn < 0 \<or> 999999 < pn
            then [(''product_number'',
                   ''product_number is '' @ str_int pn @ '' but must be between 0 and 999999.'')]
            else [])
           @ (if pr < 1
              then [(''price'', ''price is '' @ str_int pr @ '' but must be at least 1.'')]
              else [])))"
    by (auto simp: Product_new_def validate_product_number_def validate_price_def
          str_int_0 str_int_1 str_int_999999 product_number_min_def product_number_max_def price_min_def)
  show "(\<exists>ol. OrderLine_new p c = Inr ol) \<longleftrightarrow> 1 \<le> c"
    by (simp add: OrderLine_new_Inr_iff)
  show "1 \<le> c \<longrightarrow> OrderLine_new p c = Inr \<lparr>product = p, product_count = c\<rparr>"
    by (simp add: OrderLine_new_Inr_iff)
  show "\<not> 1 \<le> c \<longrightarrow>
        OrderLine_new p c = Inl (ValidationError
          [(''product_count'',
            ''product_count is '' @ str_int c @ '' but must be greater than 0.'')])"
    by (auto simp: OrderLine_new_def validate_product_count_def)
qed

theorem construction_validation_witness:
  "Product_new 123456 1 = Inr \<lparr>product_number = 123456, price = 1\<rparr>
   \<and> Product_new 1000000 1 = Inl (ValidationError
        [(''product_number'',
          ''product_number is 1000000 but must be between 0 and 999999.'')])
   \<and> OrderLine_new \<lparr>product_number = 123456, price = 100\<rparr> 1
        = Inr \<lparr>product = \<lparr>product_number = 123456, price = 100\<rparr>, product_count = 1\<rparr>
   \<and> OrderLine_new \<lparr>product_number = 123456, price = 100\<rparr> 0
        = Inl (ValidationError
            [(''product_count'', ''product_count is 0 but must be greater than 0.'')])"
proof -
  note s1 = str_int_1000000 and s0 = str_int_0
  let ?p = "\<lparr>product_number = 123456, price = 100\<rparr>"
  from construction_validation [of 123456 1 ?p 1]
  have a: "Product_new 123456 1 = Inr \<lparr>product_number = 123456, price = 1\<rparr>"
    and c: "OrderLine_new ?p 1 = Inr \<lparr>product = ?p, product_count = 1\<rparr>"
    by simp_all
  from construction_validation [of 1000000 1 ?p 0]
  have b: "Product_new 1000000 1 = Inl (ValidationError
        [(''product_number'',
          ''product_number is 1000000 but must be between 0 and 999999.'')])"
    and d: "OrderLine_new ?p 0 = Inl (ValidationError
            [(''product_count'', ''product_count is 0 but must be greater than 0.'')])"
    by (simp_all add: s1 s0)
  show ?thesis using a b c d by (intro conjI)
qed

section \<open>Frozen value objects\<close>

text \<open>
  Claim C5.  For every order line a construction returns, assigning to its
  \<open>product_count\<close> or to its \<open>product\<close> fails with an immutability error and the line
  afterwards is the line as it was, so both fields still read their prior values; an
  assignment to the price of the product the line refers to, made on the product,
  succeeds and changes that price.
\<close>

theorem order_line_fields_frozen:
  "OrderLine_new p c = Inr ol \<Longrightarrow>
     (\<exists>msg. OrderLine_set_product_count v ol = (Some (ImmutabilityError msg), ol))
   \<and> (\<exists>msg. OrderLine_set_product q ol = (Some (ImmutabilityError msg), ol))
   \<and> product_count (snd (OrderLine_set_product_count v ol)) = c
   \<and> product (snd (OrderLine_set_product q ol)) = p
   \<and> Product_set_price w (product ol) = (None, (product ol)\<lparr>price := w\<rparr>)"
  by (auto simp: OrderLine_new_Inr_iff OrderLine_set_product_count_def
        OrderLine_set_product_def Product_set_price_def model_setattr_def
        OrderLine_Config_def ValueObject_Config_def Product_Config_def
        Entity_Config_def BaseModel_Config_def)

theorem order_line_fields_frozen_witness:
  "OrderLine_new \<lparr>product_number = 123456, price = 100\<rparr> 1
      = Inr (mk_line 123456 100 1)
   \<and> fst (OrderLine_set_product_count 2 (mk_line 123456 100 1)) \<noteq> None
   \<and> product_count (snd (OrderLine_set_product_count 2 (mk_line 123456 100 1))) = 1
   \<and> product (snd (OrderLine_set_product \<lparr>product_number = 5, price = 6\<rparr>
                      (mk_line 123456 100 1)))
       = \<lparr>product_number = 123456, price = 100\<rparr>
   \<and> Product_set_price 2 \<lparr>product_number = 123456, price = 100\<rparr>
       = (None, \<lparr>product_number = 123456, price = 2\<rparr>)"
proof -
  let ?p = "\<lparr>product_number = 123456, price = 100\<rparr>"
  have n: "OrderLine_new ?p 1 = Inr (mk_line 123456 100 1)"
    by (simp add: OrderLine_new_Inr_iff mk_line_def)
  from order_line_fields_frozen [OF n, of 2 "\<lparr>product_number = 5, price = 6\<rparr>" 2]
  show ?thesis using n by auto
qed

section \<open>Equality of two products\<close>

text \<open>
  Claim C9, as the code has it.  For two products constructed with the same product
  number, the program's equality between them holds exactly when their prices are equal
  as well: it is equality of all fields, not of the product number alone.
\<close>

theorem product_equality_all_fields:
  "Product_new n p = Inr a \<Longrightarrow> Product_new n q = Inr b \<Longrightarrow>
   product_number a = product_number b \<and> (Product_eq a b \<longleftrightarrow> p = q)
   \<and> (Product_eq a b \<longleftrightarrow> a = b)"
  by (auto simp: Product_new_Inr_iff Product_eq_def Product_dict_def)

theorem product_equality_all_fields_witness:
  "Product_new 7 10 = Inr \<lparr>product_number = 7, price = 10\<rparr>
   \<and> Product_eq \<lparr>product_number = 7, price = 10\<rparr> \<lparr>product_number = 7, price = 10\<rparr>"
proof -
  have n: "Product_new 7 10 = Inr \<lparr>product_number = 7, price = 10\<rparr>"
    by (simp add: Product_new_Inr_iff)
  from product_equality_all_fields [OF n n] show ?thesis using n by simp
qed

text \<open>
  Two constructed products with the product number 7 and the prices 10 and 20 are not
  equal, although their product numbers are.
\<close>

theorem product_equality_counterexample:
  "Product_new 7 10 = Inr \<lparr>product_number = 7, price = 10\<rparr>
   \<and> Product_new 7 20 = Inr \<lparr>product_number = 7, price = 20\<rparr>
   \<and> product_number \<lparr>product_number = 7, price = 10\<rparr>
       = product_number \<lparr>product_number = 7, price = 20\<rparr>
   \<and> \<not> Product_eq \<lparr>product_number = 7, price = 10\<rparr> \<lparr>product_number = 7, price = 20\<rparr>"
  by (simp add: Product_new_Inr_iff Product_eq_def Product_dict_def)

section \<open>The total and the sum of the lines\<close>

text \<open>
  The total is kept equal to the sum of count times price over the lines by
  \<open>remove_order_line\<close> always, and by \<open>add_order_line\<close> whenever the added line carries
  the price of the line it is merged into.
\<close>

lemma line_total_mk_line [simp]: "line_total (mk_line n p c) = c * p"
  by (simp add: line_total_def)

lemma remove_order_line_keeps_total:
  assumes "overall_price s = lines_sum (order_lines s)"
    and "remove_order_line n s = Inr s'"
  shows "overall_price s' = lines_sum (order_lines s')"
proof (cases "find (\<lambda>x. line_number x = n) (order_lines s)")
  case None
  then have "\<forall>e \<in> set (order_lines s). line_number e \<noteq> n"
    by (auto simp: find_None_iff)
  with assms show ?thesis
    by (simp add: remove_order_line_def remove_loop_absent)
next
  case (Some e)
  then have mem: "e \<in> set (order_lines s)" by (auto dest: find_line_Some)
  from remove_loop_present [OF Some subset_refl] assms mem show ?thesis
    by (auto simp: remove_order_line_def lines_sum_remove1)
qed

lemma add_order_line_keeps_total:
  assumes ol: "constructed ol"
    and all: "list_all constructed (order_lines s)"
    and same: "\<forall>e \<in> set (order_lines s). line_number e = line_number ol
                 \<longrightarrow> price (product e) = price (product ol)"
    and tot: "overall_price s = lines_sum (order_lines s)"
    and res: "add_order_line ol s = Inr s'"
  shows "overall_price s' = lines_sum (order_lines s')"
proof (cases "find (\<lambda>x. line_number x = line_number ol) (order_lines s)")
  case None
  then have absent: "\<forall>e \<in> set (order_lines s). line_number e \<noteq> line_number ol"
    by (auto simp: find_None_iff)
  from add_loop_absent [OF absent, of s] res tot show ?thesis
    by (auto simp: add_order_line_def lines_sum_append) (simp add: lines_sum_def)
next
  case (Some e)
  then have mem: "e \<in> set (order_lines s)" and en: "line_number e = line_number ol"
    by (auto dest: find_line_Some)
  have ce: "constructed e" using all mem by (simp add: list_all_iff)
  have k: "1 \<le> product_count ol" using ol by (simp add: constructed_iff)
  have pr: "price (product e) = price (product ol)" using same mem en by blast
  have m: "lines_sum [mk_line (line_number e) (price (product e))
                        (product_count e + product_count ol)]
             = line_total e + line_total ol"
    by (simp add: lines_sum_def line_total_def pr algebra_simps)
  from add_loop_present [OF Some subset_refl ce k] res
  have "order_lines s' = remove1 e (order_lines s)
            @ [mk_line (line_number e) (price (product e)) (product_count e + product_count ol)]"
    and "overall_price s' = overall_price s + line_total ol"
    by (auto simp: add_order_line_def)
  then show ?thesis
    using tot m lines_sum_remove1 [OF mem] by (simp add: lines_sum_append)
qed

text \<open>
  Claim C1 states that after every sequence of calls with constructed lines the total
  equals the sum over the lines, also when an added line shares its product number with
  an existing line and carries another price.  At this input the code does otherwise:
  after adding a line (product number 1, price 100, count 1) and then a line
  (1, 200, 1) to the empty order, the one line left is (1, 100, 2), whose sum is 200,
  and the total is 300.
\<close>

theorem total_differs_from_sum:
  "constructed (mk_line 1 100 1) \<and> constructed (mk_line 1 200 1)
   \<and> run [Add (mk_line 1 100 1), Add (mk_line 1 200 1)] Order_new
       = Inr \<lparr>order_lines = [mk_line 1 100 2], overall_price = 300\<rparr>
   \<and> lines_sum [mk_line 1 100 2] = 200"
  by code_simp

end
